theory Spec2Isabelle
  imports Complex_Main
begin

section \<open>Strings\<close>

text \<open>
  A JavaScript string is a sequence of UTF-16 code units. A code unit is modelled as a
  natural number (its value; the program never depends on the bound \<open>2^16\<close>), so that
  the right single quotation mark U+2019 of the word pattern and the non-ASCII white
  space of \<open>\s\<close> are single elements, as they are for the regular expressions of the
  source (none of which has the \<open>u\<close> flag).
\<close>

type_synonym jsstring = "nat list"

definition ascii :: "string \<Rightarrow> jsstring" where
  "ascii s = map of_char s"

definition isDigit :: "nat \<Rightarrow> bool" where
  "isDigit c = (48 \<le> c \<and> c \<le> 57)"

definition isUpper :: "nat \<Rightarrow> bool" where
  "isUpper c = (65 \<le> c \<and> c \<le> 90)"

definition isLower :: "nat \<Rightarrow> bool" where
  "isLower c = (97 \<le> c \<and> c \<le> 122)"

text \<open>The character class \<open>[A-Za-z0-9]\<close>; with the \<open>i\<close> flag \<open>[a-z0-9]\<close> is the same class.\<close>

definition isAlnum :: "nat \<Rightarrow> bool" where
  "isAlnum c = (isUpper c \<or> isLower c \<or> isDigit c)"

text \<open>
  The class \<open>\s\<close>, which is also what \<open>trim\<close> removes: TAB, LF, VT, FF, CR, SP, NBSP,
  U+1680, U+2000..U+200A, LS, PS, U+202F, U+205F, U+3000 and U+FEFF.
\<close>

definition isSpace :: "nat \<Rightarrow> bool" where
  "isSpace c = ((9 \<le> c \<and> c \<le> 13) \<or> c = 32 \<or> c = 160 \<or> c = 5760
      \<or> (8192 \<le> c \<and> c \<le> 8202) \<or> c = 8232 \<or> c = 8233 \<or> c = 8239
      \<or> c = 8287 \<or> c = 12288 \<or> c = 65279)"

text \<open>The class \<open>[^A-Za-z0-9\s]\<close>.\<close>

definition isPunct :: "nat \<Rightarrow> bool" where
  "isPunct c = (\<not> isAlnum c \<and> \<not> isSpace c)"

text \<open>The class \<open>['\<dots>]\<close> of the word pattern: the apostrophe and U+2019.\<close>

definition isApos :: "nat \<Rightarrow> bool" where
  "isApos c = (c = 39 \<or> c = 8217)"

text \<open>
  The class of the first \<open>replace\<close> of \<open>normalizeWord\<close>: U+201C, U+201D, the double
  quote, U+2018, U+2019, the apostrophe and the backtick.
\<close>

definition isQuote :: "nat \<Rightarrow> bool" where
  "isQuote c = (c = 8220 \<or> c = 8221 \<or> c = 34 \<or> c = 8216 \<or> c = 8217 \<or> c = 39 \<or> c = 96)"

text \<open>
  \<open>String.prototype.toLowerCase\<close> belongs to the runtime, with the case tables of
  Unicode. The model is exact on ASCII and on the two other characters whose lower case
  contains an ASCII unit (the Kelvin sign U+212A, and U+0130, whose lower case is \<open>i\<close>
  followed by U+0307); every other unit is left in place. Those units and their real
  images are outside ASCII, and \<open>normalizeWord\<close> deletes every unit outside
  \<open>[A-Za-z0-9]\<close> right after, so the result of \<open>normalizeWord\<close> is the one of the
  runtime.
\<close>

definition lowerUnit :: "nat \<Rightarrow> jsstring" where
  "lowerUnit c =
     (if isUpper c then [c + 32]
      else if c = 8490 then [107]
      else if c = 304 then [105, 775]
      else [c])"

definition toLowerCase :: "jsstring \<Rightarrow> jsstring" where
  "toLowerCase s = concat (map lowerUnit s)"

definition trim :: "jsstring \<Rightarrow> jsstring" where
  "trim s = rev (dropWhile isSpace (rev (dropWhile isSpace s)))"

text \<open>
  \<open>normalizeWord\<close> of \<open>app/page.tsx\<close>: lower case, delete the quote characters, delete
  every run of units outside \<open>[a-z0-9]\<close> (flags \<open>gi\<close>), trim. On a string \<open>s || ""\<close>
  is \<open>s\<close>.
\<close>

definition normalizeWord :: "jsstring \<Rightarrow> jsstring" where
  "normalizeWord s =
     trim (filter isAlnum (filter (\<lambda>c. \<not> isQuote c) (toLowerCase s)))"

section \<open>The word pattern\<close>

text \<open>
  A match of \<open>[A-Za-z0-9]+(?:['\<dots>][A-Za-z0-9]+)?\<close> at the head of a string that
  starts with a letter or digit: the longest run of letters and digits, then, when an
  apostrophe and at least one more letter or digit follow, the apostrophe and the
  longest run after it. The result is the match and the rest of the string.
\<close>

definition matchWord :: "jsstring \<Rightarrow> jsstring \<times> jsstring" where
  "matchWord s =
     (let a = takeWhile isAlnum s; r = dropWhile isAlnum s in
      case r of
        q # d # r' \<Rightarrow>
          if isApos q \<and> isAlnum d
          then (a @ q # takeWhile isAlnum (d # r'), dropWhile isAlnum (d # r'))
          else (a, r)
      | _ \<Rightarrow> (a, r))"

lemma isPunctI: "\<not> isSpace c \<Longrightarrow> \<not> isAlnum c \<Longrightarrow> isPunct c"
  by (simp add: isPunct_def)

lemma length_dropWhile_less:
  "P c \<Longrightarrow> length (dropWhile P (c # cs)) < Suc (length cs)"
  by (simp add: le_imp_less_Suc length_dropWhile_le)

lemma matchWord_rest_le:
  "length (snd (matchWord s)) \<le> length (dropWhile isAlnum s)"
proof -
  have "length (dropWhile isAlnum r') \<le> Suc (Suc (length r'))" for r'
    using length_dropWhile_le [of isAlnum r'] by simp
  then show ?thesis
    by (simp add: matchWord_def Let_def split: list.split)
qed

lemma matchWord_rest_shorter:
  "isAlnum c \<Longrightarrow> length (snd (matchWord (c # cs))) < Suc (length cs)"
  using matchWord_rest_le [of "c # cs"] length_dropWhile_less [of isAlnum c cs]
  by simp

text \<open>
  \<open>usedText.match(/[A-Za-z0-9]+(?:['\<dots>][A-Za-z0-9]+)?/g) || []\<close>: the matches from left
  to right; a unit at which no match starts is skipped.
\<close>

function wordsInText :: "jsstring \<Rightarrow> jsstring list" where
  "wordsInText [] = []"
| "wordsInText (c # cs) =
     (if isAlnum c
      then fst (matchWord (c # cs)) # wordsInText (snd (matchWord (c # cs)))
      else wordsInText cs)"
  by pat_completeness auto
termination
  by (relation "measure length") (auto simp: matchWord_rest_shorter)

section \<open>Numbers\<close>

text \<open>
  A JavaScript number is a double. The model keeps the three special values apart and
  takes a finite double for the real number it denotes: rounding and the sign of zero
  are not modelled. The operations below are the ones the program applies, with the
  results IEEE 754 gives on the special values.
\<close>

datatype jsnum = Fin real | PInf | NInf | NaN

fun isFinite :: "jsnum \<Rightarrow> bool" where
  "isFinite (Fin a) = True"
| "isFinite PInf = False"
| "isFinite NInf = False"
| "isFinite NaN = False"

fun jneg :: "jsnum \<Rightarrow> jsnum" where
  "jneg (Fin a) = Fin (- a)"
| "jneg PInf = NInf"
| "jneg NInf = PInf"
| "jneg NaN = NaN"

fun jadd :: "jsnum \<Rightarrow> jsnum \<Rightarrow> jsnum" where
  "jadd (Fin a) (Fin b) = Fin (a + b)"
| "jadd NaN y = NaN"
| "jadd x NaN = NaN"
| "jadd PInf NInf = NaN"
| "jadd NInf PInf = NaN"
| "jadd PInf y = PInf"
| "jadd x PInf = PInf"
| "jadd NInf y = NInf"
| "jadd x NInf = NInf"

definition jsub :: "jsnum \<Rightarrow> jsnum \<Rightarrow> jsnum" where
  "jsub x y = jadd x (jneg y)"

fun jmul :: "jsnum \<Rightarrow> jsnum \<Rightarrow> jsnum" where
  "jmul (Fin a) (Fin b) = Fin (a * b)"
| "jmul NaN y = NaN"
| "jmul x NaN = NaN"
| "jmul PInf (Fin b) = (if b = 0 then NaN else if 0 < b then PInf else NInf)"
| "jmul NInf (Fin b) = (if b = 0 then NaN else if 0 < b then NInf else PInf)"
| "jmul (Fin a) PInf = (if a = 0 then NaN else if 0 < a then PInf else NInf)"
| "jmul (Fin a) NInf = (if a = 0 then NaN else if 0 < a then NInf else PInf)"
| "jmul PInf PInf = PInf"
| "jmul PInf NInf = NInf"
| "jmul NInf PInf = NInf"
| "jmul NInf NInf = PInf"

text \<open>Division by a finite, non-zero constant: the program only divides by 1000.\<close>

fun jdiv :: "jsnum \<Rightarrow> real \<Rightarrow> jsnum" where
  "jdiv (Fin a) d = Fin (a / d)"
| "jdiv PInf d = (if 0 < d then PInf else NInf)"
| "jdiv NInf d = (if 0 < d then NInf else PInf)"
| "jdiv NaN d = NaN"

text \<open>\<open>Math.max\<close> of two numbers.\<close>

fun jmax :: "jsnum \<Rightarrow> jsnum \<Rightarrow> jsnum" where
  "jmax (Fin a) (Fin b) = Fin (max a b)"
| "jmax NaN y = NaN"
| "jmax x NaN = NaN"
| "jmax PInf y = PInf"
| "jmax x PInf = PInf"
| "jmax NInf y = y"
| "jmax x NInf = x"

text \<open>\<open>x < y\<close>; false when either side is NaN.\<close>

fun jless :: "jsnum \<Rightarrow> jsnum \<Rightarrow> bool" where
  "jless (Fin a) (Fin b) = (a < b)"
| "jless NaN y = False"
| "jless x NaN = False"
| "jless x NInf = False"
| "jless PInf y = False"
| "jless NInf y = True"
| "jless x PInf = True"

definition jle :: "jsnum \<Rightarrow> jsnum \<Rightarrow> bool" where
  "jle x y = (x \<noteq> NaN \<and> y \<noteq> NaN \<and> (jless x y \<or> x = y))"

text \<open>\<open>Math.round\<close>: the nearest integer, a half rounded up.\<close>

fun jround :: "jsnum \<Rightarrow> jsnum" where
  "jround (Fin a) = Fin (of_int \<lfloor>a + 1 / 2\<rfloor>)"
| "jround PInf = PInf"
| "jround NInf = NInf"
| "jround NaN = NaN"

section \<open>Values of the scoring response\<close>

text \<open>
  The response of the scoring service reaches the program as parsed JSON, typed
  \<open>any\<close>. An object is its list of own properties; \<open>JUndefined\<close> is what reading an
  absent property gives.
\<close>

datatype json =
    JUndefined
  | JNull
  | JBool bool
  | JNum jsnum
  | JStr jsstring
  | JArr "json list"
  | JObj "(jsstring \<times> json) list"

datatype error = TypeError

definition nullish :: "json \<Rightarrow> bool" where
  "nullish v = (v = JUndefined \<or> v = JNull)"

fun truthy :: "json \<Rightarrow> bool" where
  "truthy JUndefined = False"
| "truthy JNull = False"
| "truthy (JBool b) = b"
| "truthy (JNum n) = (n \<noteq> NaN \<and> n \<noteq> Fin 0)"
| "truthy (JStr s) = (s \<noteq> [])"
| "truthy (JArr xs) = True"
| "truthy (JObj kvs) = True"

text \<open>\<open>a || b\<close> and \<open>a ?? b\<close> on values.\<close>

definition orElse :: "json \<Rightarrow> json \<Rightarrow> json" where
  "orElse a b = (if truthy a then a else b)"

definition coalesce :: "json \<Rightarrow> json \<Rightarrow> json" where
  "coalesce a b = (if nullish a then b else a)"

text \<open>
  Reading the property \<open>k\<close> of a value that is neither \<open>null\<close> nor \<open>undefined\<close>. The
  names the program reads (\<open>word\<close>, \<open>extent\<close>, \<open>start_time\<close>, ...) are own properties
  of an object or nothing: no prototype defines them, so a primitive and an array give
  \<open>undefined\<close>.
\<close>

fun propOf :: "json \<Rightarrow> jsstring \<Rightarrow> json" where
  "propOf (JObj kvs) k = (case map_of kvs k of Some v \<Rightarrow> v | None \<Rightarrow> JUndefined)"
| "propOf v k = JUndefined"

text \<open>\<open>v.k\<close> throws on \<open>null\<close> and \<open>undefined\<close>; \<open>v?.k\<close> gives \<open>undefined\<close> there.\<close>

definition getProp :: "json \<Rightarrow> jsstring \<Rightarrow> error + json" where
  "getProp v k = (if nullish v then Inl TypeError else Inr (propOf v k))"

definition optChain :: "json \<Rightarrow> jsstring \<Rightarrow> error + json" where
  "optChain v k = (if nullish v then Inr JUndefined else getProp v k)"

definition optProp :: "json \<Rightarrow> jsstring \<Rightarrow> json" where
  "optProp v k = (if nullish v then JUndefined else propOf v k)"

text \<open>\<open>xs[i]\<close> on an array: \<open>undefined\<close> out of range.\<close>

definition elemAt :: "json list \<Rightarrow> nat \<Rightarrow> json" where
  "elemAt xs i = (if i < length xs then xs ! i else JUndefined)"

section \<open>Score Extractor\<close>

text \<open>\<open>v?.k1?.k2...\<close>: a chain of optional property reads.\<close>

fun optPath :: "json \<Rightarrow> jsstring list \<Rightarrow> error + json" where
  "optPath v [] = Inr v"
| "optPath v (k # ks) =
     (case optChain v k of Inl e \<Rightarrow> Inl e | Inr w \<Rightarrow> optPath w ks)"

text \<open>\<open>p1 ?? p2 ?? ... ?? null\<close>: the first path whose value is neither \<open>null\<close> nor
  \<open>undefined\<close>; the paths are read from left to right, a later one only when the
  earlier ones gave nothing.\<close>

fun firstCandidate :: "json \<Rightarrow> jsstring list list \<Rightarrow> error + json" where
  "firstCandidate v [] = Inr JNull"
| "firstCandidate v (p # ps) =
     (case optPath v p of
        Inl e \<Rightarrow> Inl e
      | Inr c \<Rightarrow> if nullish c then firstCandidate v ps else Inr c)"

definition wordScorePaths :: "jsstring list list" where
  "wordScorePaths =
     [[ascii ''text_score'', ascii ''speechace_score'', ascii ''word_score_list''],
      [ascii ''text_score'', ascii ''word_score_list''],
      [ascii ''speechace_score'', ascii ''word_score_list''],
      [ascii ''word_score_list'']]"

text \<open>\<open>getWordScoreList\<close> of \<open>lib/speechace.ts\<close>.\<close>

definition getWordScoreList :: "json \<Rightarrow> error + json list" where
  "getWordScoreList speechace =
     (case firstCandidate speechace wordScorePaths of
        Inl e \<Rightarrow> Inl e
      | Inr candidates \<Rightarrow>
          Inr (case candidates of JArr xs \<Rightarrow> xs | _ \<Rightarrow> []))"

section \<open>Timing Resolver\<close>

record WordTiming =
  startSec :: jsnum
  endSec :: jsnum

text \<open>
  \<open>Number(x)\<close> on a string and \<open>String(x)\<close> are conversions of the runtime; the
  functions that call them take them as parameters.
\<close>

record runtime =
  stringToNumber :: "jsstring \<Rightarrow> jsnum"
  toString :: "json \<Rightarrow> jsstring"

text \<open>\<open>toNumberSec\<close> of \<open>lib/speechace.ts\<close>; \<open>None\<close> is \<open>null\<close>.\<close>

definition toNumberSec :: "runtime \<Rightarrow> json \<Rightarrow> jsnum option" where
  "toNumberSec rt x =
     (if nullish x then None
      else
        let n = (case x of JStr s \<Rightarrow> stringToNumber rt s | JNum m \<Rightarrow> m | _ \<Rightarrow> NaN) in
        if \<not> isFinite n then None
        else if jless (Fin 1000) n then Some (jdiv n 1000)
        else Some n)"

text \<open>
  \<open>timingFromItem\<close> of \<open>lib/speechace.ts\<close>; \<open>None\<close> is \<open>undefined\<close>. The reads
  \<open>item.start_time\<close> and \<open>item.end_time\<close> are not optional: they throw when \<open>item\<close>
  is \<open>null\<close> or \<open>undefined\<close>.
\<close>

definition timingFromItem :: "runtime \<Rightarrow> json \<Rightarrow> error + WordTiming option" where
  "timingFromItem rt item =
     (if nullish item then Inl TypeError
      else
        let s = toNumberSec rt
                  (coalesce (propOf item (ascii ''start_time'')) (propOf item (ascii ''start'')));
            e = toNumberSec rt
                  (coalesce (propOf item (ascii ''end_time'')) (propOf item (ascii ''end'')))
        in case (s, e) of
             (Some s', Some e') \<Rightarrow>
               Inr (Some \<lparr>startSec = jmax (Fin 0) s', endSec = jmax (Fin 0) e'\<rparr>)
           | _ \<Rightarrow> Inr None)"

text \<open>
  \<open>timingFromPhoneExtents\<close> of \<open>app/page.tsx\<close>; \<open>None\<close> is \<open>null\<close>. The extents are
  in units of 10 ms.
\<close>

definition timingFromPhoneExtents :: "json \<Rightarrow> WordTiming option" where
  "timingFromPhoneExtents phoneScoreList =
     (case phoneScoreList of
        JArr ps \<Rightarrow>
          if length ps < 1 then None
          else
            let first = ps ! 0; last = ps ! (length ps - 1) in
            (case (optProp first (ascii ''extent''), optProp last (ascii ''extent'')) of
               (JArr s, JArr e) \<Rightarrow>
                 (case (elemAt s 0, elemAt e 1) of
                    (JNum start10ms, JNum end10ms) \<Rightarrow>
                      let startSec = jmax (Fin 0) (jmul start10ms (Fin 0.01));
                          endSec = jmax (jadd startSec (Fin 0.02)) (jmul end10ms (Fin 0.01))
                      in Some \<lparr>startSec = startSec, endSec = endSec\<rparr>
                  | _ \<Rightarrow> None)
             | _ \<Rightarrow> None)
      | _ \<Rightarrow> None)"

section \<open>Word-Score Aligner\<close>

record WordPhone =
  phone :: jsstring
  phoneQuality :: "jsnum option"
  soundMostLike :: "jsstring option"
  extent :: "json list option"

record WordDisplay =
  idx :: nat
  word :: jsstring
  quality :: "jsnum option"
  phones :: "WordPhone list"
  timing :: "WordTiming option"

text \<open>
  \<open>normalizeWord(list[k]?.word || "")\<close>: \<open>toLowerCase\<close> is a method of strings only, so
  a \<open>word\<close> that is truthy and not a string throws.
\<close>

definition candidateWord :: "json \<Rightarrow> error + jsstring" where
  "candidateWord item =
     (case orElse (optProp item (ascii ''word'')) (JStr []) of
        JStr s \<Rightarrow> Inr (normalizeWord s)
      | _ \<Rightarrow> Inl TypeError)"

text \<open>
  The inner loop \<open>for (k = j; k < Math.min(list.length, j + 4); k++)\<close>, over the
  positions it visits: the first position whose candidate word is not empty and equals
  \<open>nrm\<close> (the variable \<open>norm\<close> of the source).
\<close>

fun scanWindow :: "json list \<Rightarrow> jsstring \<Rightarrow> nat list \<Rightarrow> error + nat option" where
  "scanWindow list nrm [] = Inr None"
| "scanWindow list nrm (k # ks) =
     (case candidateWord (list ! k) of
        Inl e \<Rightarrow> Inl e
      | Inr c \<Rightarrow> if c \<noteq> [] \<and> c = nrm then Inr (Some k) else scanWindow list nrm ks)"

text \<open>
  Lines 219 to 240 of one iteration: the picked record (\<open>JNull\<close> for \<open>null\<close>) and the
  cursor after the iteration.
\<close>

definition pick :: "json list \<Rightarrow> nat \<Rightarrow> jsstring \<Rightarrow> error + json \<times> nat" where
  "pick list j raw =
     (let nrm = normalizeWord raw in
      case scanWindow list nrm [j ..< min (length list) (j + 4)] of
        Inl e \<Rightarrow> Inl e
      | Inr found \<Rightarrow>
          let picked0 = (case found of Some k \<Rightarrow> list ! k | None \<Rightarrow> JNull);
              pickedIndex0 = (case found of Some k \<Rightarrow> int k | None \<Rightarrow> - 1);
              picked = (if \<not> truthy picked0 then orElse (elemAt list j) JNull else picked0);
              pickedIndex = (if \<not> truthy picked0 then int j else pickedIndex0)
          in Inr (picked, if pickedIndex \<ge> int j then nat (pickedIndex + 1) else j))"

definition qualityOf :: "json \<Rightarrow> jsnum option" where
  "qualityOf picked =
     (case optProp picked (ascii ''quality_score'') of
        JNum q \<Rightarrow> Some q
      | _ \<Rightarrow>
        (case optProp picked (ascii ''quality'') of
           JNum q \<Rightarrow> Some q
         | _ \<Rightarrow>
           (case optProp picked (ascii ''score'') of
              JNum q \<Rightarrow> Some q
            | _ \<Rightarrow> None)))"

definition phonesRawOf :: "json \<Rightarrow> json list" where
  "phonesRawOf picked =
     (case optProp picked (ascii ''phone_score_list'') of JArr ps \<Rightarrow> ps | _ \<Rightarrow> [])"

definition wordPhoneOf :: "runtime \<Rightarrow> json \<Rightarrow> WordPhone" where
  "wordPhoneOf rt p =
     \<lparr>phone = toString rt
                (orElse (orElse (optProp p (ascii ''phone'')) (optProp p (ascii ''symbol'')))
                   (JStr [])),
      phoneQuality =
        (case optProp p (ascii ''quality_score'') of
           JNum q \<Rightarrow> Some q
         | _ \<Rightarrow> (case optProp p (ascii ''quality'') of JNum q \<Rightarrow> Some q | _ \<Rightarrow> None)),
      soundMostLike =
        (if truthy (optProp p (ascii ''sound_most_like''))
         then Some (toString rt (optProp p (ascii ''sound_most_like'')))
         else None),
      extent = (case optProp p (ascii ''extent'') of JArr e \<Rightarrow> Some e | _ \<Rightarrow> None)\<rparr>"

text \<open>
  \<open>timingFromExtent || timingFromItem(picked) || null\<close>: \<open>timingFromItem\<close> is called
  only when the phones give no timing, and then with \<open>picked\<close> as it is.
\<close>

definition timingOf :: "runtime \<Rightarrow> json \<Rightarrow> error + WordTiming option" where
  "timingOf rt picked =
     (case timingFromPhoneExtents (JArr (phonesRawOf picked)) of
        Some t \<Rightarrow> Inr (Some t)
      | None \<Rightarrow> timingFromItem rt picked)"

text \<open>One iteration of the outer loop: the entry pushed to \<open>out\<close> and the new cursor.\<close>

definition iteration ::
  "runtime \<Rightarrow> json list \<Rightarrow> nat \<Rightarrow> nat \<Rightarrow> jsstring \<Rightarrow> error + WordDisplay \<times> nat" where
  "iteration rt list i j raw =
     (case pick list j raw of
        Inl e \<Rightarrow> Inl e
      | Inr (picked, j') \<Rightarrow>
          (case timingOf rt picked of
             Inl e \<Rightarrow> Inl e
           | Inr t \<Rightarrow>
               Inr (\<lparr>idx = i, word = raw, quality = qualityOf picked,
                     phones = map (wordPhoneOf rt) (phonesRawOf picked), timing = t\<rparr>, j')))"

text \<open>
  The outer loop over the words of the text, from index \<open>i\<close> with cursor \<open>j\<close>. Its
  result is the state of its two variables when it ends: the entries pushed to \<open>out\<close>,
  in order, and the cursor \<open>j\<close>.
\<close>

fun alignLoop ::
  "runtime \<Rightarrow> json list \<Rightarrow> jsstring list \<Rightarrow> nat \<Rightarrow> nat \<Rightarrow> error + WordDisplay list \<times> nat" where
  "alignLoop rt list [] i j = Inr ([], j)"
| "alignLoop rt list (raw # ws) i j =
     (case iteration rt list i j raw of
        Inl e \<Rightarrow> Inl e
      | Inr (w, j') \<Rightarrow>
          (case alignLoop rt list ws (i + 1) j' of
             Inl e \<Rightarrow> Inl e
           | Inr (out, j'') \<Rightarrow> Inr (w # out, j'')))"

text \<open>\<open>buildWordDisplays\<close> of \<open>app/page.tsx\<close>.\<close>

definition buildWordDisplays :: "runtime \<Rightarrow> jsstring \<Rightarrow> json \<Rightarrow> error + WordDisplay list" where
  "buildWordDisplays rt usedText speechace =
     (case getWordScoreList speechace of
        Inl e \<Rightarrow> Inl e
      | Inr list \<Rightarrow>
          if trim usedText = [] \<or> list = [] then Inr []
          else
            (case alignLoop rt list (wordsInText usedText) 0 0 of
               Inl e \<Rightarrow> Inl e
             | Inr (out, j) \<Rightarrow> Inr out))"

section \<open>Tokenizer\<close>

datatype Token =
    TSpace jsstring
  | TPunct jsstring
  | TWord jsstring "WordDisplay option"

fun tokenText :: "Token \<Rightarrow> jsstring" where
  "tokenText (TSpace s) = s"
| "tokenText (TPunct s) = s"
| "tokenText (TWord s a) = s"

fun isWordToken :: "Token \<Rightarrow> bool" where
  "isWordToken (TWord s a) = True"
| "isWordToken t = False"

text \<open>\<open>wordDisplays?.[wi] || null\<close>.\<close>

definition attachAt :: "WordDisplay list \<Rightarrow> nat \<Rightarrow> WordDisplay option" where
  "attachAt wordDisplays wi = (if wi < length wordDisplays then Some (wordDisplays ! wi) else None)"

text \<open>
  The loop \<open>while ((m = re.exec(text)) !== null)\<close> of \<open>tokenizeAndAttach\<close> on the rest of
  the text from \<open>lastIndex\<close>, with the word counter \<open>wi\<close>. The three alternatives of the
  pattern are tried in order at the first unit: a run of white space, a word, a run of
  other units. One of them always matches there, so no unit is skipped.
\<close>

function tokenLoop :: "jsstring \<Rightarrow> WordDisplay list \<Rightarrow> nat \<Rightarrow> Token list" where
  "tokenLoop [] wordDisplays wi = []"
| "tokenLoop (c # cs) wordDisplays wi =
     (if isSpace c
      then TSpace (takeWhile isSpace (c # cs))
             # tokenLoop (dropWhile isSpace (c # cs)) wordDisplays wi
      else if isAlnum c
      then TWord (fst (matchWord (c # cs))) (attachAt wordDisplays wi)
             # tokenLoop (snd (matchWord (c # cs))) wordDisplays (wi + 1)
      else TPunct (takeWhile isPunct (c # cs))
             # tokenLoop (dropWhile isPunct (c # cs)) wordDisplays wi)"
  by pat_completeness auto
termination
  by (relation "measure (\<lambda>(s, wds, wi). length s)")
    (auto simp: matchWord_rest_shorter le_imp_less_Suc length_dropWhile_le
       intro: isPunctI)

text \<open>\<open>tokenizeAndAttach\<close> of \<open>app/page.tsx\<close>; \<open>if (!text) return tokens\<close> is the empty
  text, for which the loop gives no token either.\<close>

definition tokenizeAndAttach :: "jsstring \<Rightarrow> WordDisplay list \<Rightarrow> Token list" where
  "tokenizeAndAttach txt wordDisplays =
     (if txt = [] then [] else tokenLoop txt wordDisplays 0)"

section \<open>Playback Scheduler\<close>

text \<open>
  The scheduler lives in the page component: the refs \<open>playTokenRef\<close>, \<open>segmentRef\<close>
  and \<open>segmentTimerRef\<close>, one audio element, and the pending timeouts of the event
  loop. JavaScript runs one task at a time, so a function runs without interruption up
  to its next \<open>await\<close>; the model has one transition for each such piece of code, and
  the environment chooses which one runs next. What the program does to the audio
  element is recorded in \<open>calls\<close>.
\<close>

datatype audioCall = Pause | Seek jsnum | Play | Load

datatype stage = AwaitUrl | AwaitMetadata

text \<open>
  How the awaited \<open>ensureFreshAudioUrl()\<close> ends: with no URL, with the URL it already
  had, or with a URL it fetched (it then sets \<open>src\<close> and calls \<open>load()\<close>).
\<close>

datatype urlOutcome = NoUrl | CachedUrl | FetchedUrl

record sched =
  hasAudio :: bool
  audioSrc :: bool
  readyState :: nat
  calls :: "audioCall list"
  playToken :: nat
  segment :: "(jsnum \<times> nat) option"
  segmentTimer :: "nat option"
  timers :: "nat \<rightharpoonup> nat \<times> jsnum"
  nextTimer :: nat
  waiting :: "(nat \<times> jsnum \<times> jsnum \<times> stage) list"
  err :: "jsstring option"
  ttsSpeaking :: bool

text \<open>
  \<open>hasAudio\<close>: \<open>audioRef.current\<close> is an element; \<open>audioSrc\<close>: its \<open>src\<close> is not empty.
  \<open>segment\<close> is \<open>segmentRef.current\<close>, the pair \<open>(endSec, token)\<close>. \<open>timers\<close> maps the
  id of each pending timeout to the token its callback has captured and to its delay;
  \<open>segmentTimer\<close> is the id held in \<open>segmentTimerRef.current\<close>. \<open>waiting\<close> holds the
  calls of \<open>playSegment\<close> suspended at an \<open>await\<close>, with their token and arguments.
\<close>

definition init :: sched where
  "init =
     \<lparr>hasAudio = False, audioSrc = False, readyState = 0, calls = [], playToken = 0,
      segment = None, segmentTimer = None, timers = Map.empty, nextTimer = 1, waiting = [],
      err = None, ttsSpeaking = False\<rparr>"

definition stopSegmentTimer :: "sched \<Rightarrow> sched" where
  "stopSegmentTimer s =
     (case segmentTimer s of
        None \<Rightarrow> s
      | Some tid \<Rightarrow> s\<lparr>timers := (timers s)(tid := None), segmentTimer := None\<rparr>)"

definition stopTts :: "sched \<Rightarrow> sched" where
  "stopTts s = s\<lparr>ttsSpeaking := False\<rparr>"

text \<open>The callback of the stop-timer that \<open>doSeekPlay\<close> sets, with the token it captured.\<close>

definition timerCallback :: "nat \<Rightarrow> sched \<Rightarrow> sched" where
  "timerCallback token s =
     (case segment s of
        None \<Rightarrow> s
      | Some (e, t) \<Rightarrow>
          if t \<noteq> token then s
          else s\<lparr>calls := calls s @ [Pause], segment := None, segmentTimer := None\<rparr>)"

text \<open>\<open>doSeekPlay\<close> inside \<open>playSegment\<close>, for the call with this token and the arguments
  \<open>startSec\<close> and \<open>endSec\<close> (here \<open>startS\<close> and \<open>endS\<close>).\<close>

definition doSeekPlay :: "nat \<Rightarrow> jsnum \<Rightarrow> jsnum \<Rightarrow> sched \<Rightarrow> sched" where
  "doSeekPlay token startS endS s =
     (if token \<noteq> playToken s then s
      else
        let ms = jmax (Fin 80) (jadd (jround (jmul (jsub endS startS) (Fin 1000))) (Fin 60));
            tid = nextTimer s
        in s\<lparr>calls := calls s @ [Seek (jmax (Fin 0) startS), Play],
             segment := Some (endS, token),
             timers := (timers s)(tid \<mapsto> (token, ms)),
             segmentTimer := Some tid,
             nextTimer := tid + 1\<rparr>)"

text \<open>
  \<open>playSegment\<close> from the test of \<open>a.readyState\<close> on: wait for the metadata (after
  \<open>a.load()\<close>) or seek and play at once.
\<close>

definition afterUrl :: "nat \<Rightarrow> jsnum \<Rightarrow> jsnum \<Rightarrow> sched \<Rightarrow> sched" where
  "afterUrl token startS endS s =
     (if readyState s < 1
      then s\<lparr>calls := calls s @ [Load],
             waiting := waiting s @ [(token, startS, endS, AwaitMetadata)]\<rparr>
      else doSeekPlay token startS endS s)"

text \<open>\<open>playSegment\<close> up to its first \<open>await\<close>.\<close>

definition playSegment :: "jsnum \<Rightarrow> jsnum \<Rightarrow> sched \<Rightarrow> sched" where
  "playSegment startS endS s =
     (if \<not> hasAudio s then s
      else
        let s1 = (stopSegmentTimer s)\<lparr>segment := None\<rparr>;
            s2 = s1\<lparr>playToken := playToken s1 + 1\<rparr>;
            token = playToken s2;
            s3 = s2\<lparr>calls := calls s2 @ [Pause]\<rparr>
        in if \<not> audioSrc s3
           then s3\<lparr>waiting := waiting s3 @ [(token, startS, endS, AwaitUrl)]\<rparr>
           else afterUrl token startS endS s3)"

definition applyUrl :: "urlOutcome \<Rightarrow> sched \<Rightarrow> sched" where
  "applyUrl outcome s =
     (if outcome = FetchedUrl \<and> hasAudio s
      then s\<lparr>audioSrc := True, calls := calls s @ [Load]\<rparr>
      else s)"

text \<open>The suspended call with this token resumes after \<open>await ensureFreshAudioUrl()\<close>.\<close>

definition resumeUrl :: "nat \<Rightarrow> urlOutcome \<Rightarrow> sched \<Rightarrow> sched" where
  "resumeUrl token outcome s =
     (case find (\<lambda>(t, a, b, st). t = token \<and> st = AwaitUrl) (waiting s) of
        None \<Rightarrow> s
      | Some (t, a, b, st) \<Rightarrow>
          let s1 = applyUrl outcome (s\<lparr>waiting := remove1 (t, a, b, st) (waiting s)\<rparr>)
          in if outcome = NoUrl then s1 else afterUrl token a b s1)"

text \<open>The suspended call with this token resumes after the metadata promise.\<close>

definition resumeMetadata :: "nat \<Rightarrow> sched \<Rightarrow> sched" where
  "resumeMetadata token s =
     (case find (\<lambda>(t, a, b, st). t = token \<and> st = AwaitMetadata) (waiting s) of
        None \<Rightarrow> s
      | Some (t, a, b, st) \<Rightarrow>
          doSeekPlay token a b (s\<lparr>waiting := remove1 (t, a, b, st) (waiting s)\<rparr>))"

text \<open>The pending timeout \<open>tid\<close> fires: it leaves the queue and its callback runs.\<close>

definition fireTimer :: "nat \<Rightarrow> sched \<Rightarrow> sched" where
  "fireTimer tid s =
     (case timers s tid of
        None \<Rightarrow> s
      | Some (token, ms) \<Rightarrow> timerCallback token (s\<lparr>timers := (timers s)(tid := None)\<rparr>))"

text \<open>The \<open>timeupdate\<close> listener \<open>onTime\<close>, with the \<open>currentTime\<close> it reads.\<close>

definition onTime :: "jsnum \<Rightarrow> sched \<Rightarrow> sched" where
  "onTime currentTime s =
     (if \<not> hasAudio s then s
      else
        case segment s of
          None \<Rightarrow> s
        | Some (e, t) \<Rightarrow>
            if playToken s \<noteq> t then s
            else if jle e currentTime
            then stopSegmentTimer (s\<lparr>calls := calls s @ [Pause], segment := None\<rparr>)
            else s)"

definition resetRunState :: "sched \<Rightarrow> sched" where
  "resetRunState s =
     (let s1 = (stopSegmentTimer (s\<lparr>err := None\<rparr>))\<lparr>segment := None\<rparr>;
          s2 = (if hasAudio s1 then s1\<lparr>calls := calls s1 @ [Pause]\<rparr> else s1)
      in stopTts s2)"

definition toggleTts :: "sched \<Rightarrow> sched" where
  "toggleTts s =
     (if ttsSpeaking s then stopTts s
      else
        let s1 = (if hasAudio s then s\<lparr>calls := calls s @ [Pause]\<rparr> else s);
            s2 = (stopSegmentTimer s1)\<lparr>segment := None\<rparr>
        in s2\<lparr>ttsSpeaking := True\<rparr>)"

text \<open>The message of the signal, as its UTF-16 code units.\<close>

definition noTimingMessage :: jsstring where
  "noTimingMessage =
     [84, 7915, 32, 110, 224, 121, 32, 107, 104, 244, 110, 103, 32, 99, 243, 32,
      116, 105, 109, 105, 110, 103, 32, 8594, 32, 107, 104, 244, 110, 103, 32, 116,
      104, 7875, 32, 112, 104, 225, 116, 32, 273, 250, 110, 103, 32, 116, 104, 101,
      111, 32, 116, 7915, 32, 40, 104, 227, 121, 32, 273, 7843, 109, 32, 98, 7843,
      111, 32, 83, 112, 101, 101, 99, 104, 65, 99, 101, 32, 116, 114, 7843, 32, 101,
      120, 116, 101, 110, 116, 41, 46]"

text \<open>
  \<open>playWord\<close> from its \<open>await ensureFreshAudioUrl()\<close> on, up to the first \<open>await\<close> of
  the \<open>playSegment\<close> it calls. \<open>updateTaskState({ err: ... })\<close> is the failure signal of
  the page.
\<close>

definition playWord :: "urlOutcome \<Rightarrow> WordDisplay \<Rightarrow> sched \<Rightarrow> sched" where
  "playWord outcome w s =
     (let s0 = applyUrl outcome s in
      if outcome = NoUrl then s0
      else
        let s1 = stopSegmentTimer (stopTts s0) in
        case timing w of
          None \<Rightarrow> s1\<lparr>err := Some noTimingMessage\<rparr>
        | Some t \<Rightarrow>
            let start = jmax (Fin 0) (jsub (startSec t) (Fin 0.05));
                end' = jmax (jadd start (Fin 0.02)) (endSec t)
            in playSegment start end' s1)"

datatype event =
    CallPlaySegment jsnum jsnum
  | UrlResolved nat urlOutcome
  | MetadataReady nat
  | TimerFires nat
  | TimeUpdate jsnum
  | ResetRunState
  | ToggleTts
  | PlayWordResumed urlOutcome WordDisplay
  | AudioChanged bool bool nat

text \<open>
  \<open>AudioChanged\<close> is the environment: the element is mounted or not, has a source or
  not, and its \<open>readyState\<close>.
\<close>

fun step :: "event \<Rightarrow> sched \<Rightarrow> sched" where
  "step (CallPlaySegment startS endS) s = playSegment startS endS s"
| "step (UrlResolved token outcome) s = resumeUrl token outcome s"
| "step (MetadataReady token) s = resumeMetadata token s"
| "step (TimerFires tid) s = fireTimer tid s"
| "step (TimeUpdate currentTime) s = onTime currentTime s"
| "step ResetRunState s = resetRunState s"
| "step ToggleTts s = toggleTts s"
| "step (PlayWordResumed outcome w) s = playWord outcome w s"
| "step (AudioChanged a b r) s = s\<lparr>hasAudio := a, audioSrc := b, readyState := r\<rparr>"

definition run :: "event list \<Rightarrow> sched \<Rightarrow> sched" where
  "run evs s = foldl (\<lambda>s ev. step ev s) s evs"

fun isSeekOrPlay :: "audioCall \<Rightarrow> bool" where
  "isSeekOrPlay (Seek x) = True"
| "isSeekOrPlay Play = True"
| "isSeekOrPlay c = False"


text \<open>
  Every pending timeout is the one held in \<open>segmentTimerRef\<close> and carries the current
  token; the suspended calls have distinct tokens, none after the current one; and while
  a timeout is pending the call with the current token is not suspended.
\<close>

definition timersCurrent :: "sched \<Rightarrow> bool" where
  "timersCurrent s =
     ((\<forall>tid tok ms. timers s tid = Some (tok, ms) \<longrightarrow>
          segmentTimer s = Some tid \<and> tok = playToken s)
      \<and> (\<forall>w\<in>set (waiting s). fst w \<le> playToken s)
      \<and> distinct (map fst (waiting s))
      \<and> (timers s \<noteq> Map.empty \<longrightarrow> (\<forall>w\<in>set (waiting s). fst w \<noteq> playToken s)))"

section \<open>Inputs and readings used in the statements\<close>

text \<open>
  A runtime for the closed examples below. They convert no string other than the empty
  one to a number and nothing but strings to a string, where this runtime does what
  JavaScript does.
\<close>

definition exampleRuntime :: runtime where
  "exampleRuntime =
     \<lparr>stringToNumber = (\<lambda>s. if s = [] then Fin 0 else NaN),
      toString = (\<lambda>v. case v of JStr s \<Rightarrow> s | _ \<Rightarrow> [])\<rparr>"

text \<open>
  The reading of an item-level bound in the words of the specification: the finite
  number a numeric or numeric-string bound stands for (nothing when the bound is
  missing or not finite), and the unit heuristic on it.
\<close>

definition specBound :: "runtime \<Rightarrow> json \<Rightarrow> real option" where
  "specBound rt v =
     (case v of
        JNum (Fin x) \<Rightarrow> Some x
      | JStr s \<Rightarrow> (case stringToNumber rt s of Fin x \<Rightarrow> Some x | _ \<Rightarrow> None)
      | _ \<Rightarrow> None)"

definition specSeconds :: "real \<Rightarrow> real" where
  "specSeconds x = (if 1000 < x then x / 1000 else x)"

lemmas value_defs =
  ascii_def nullish_def orElse_def coalesce_def getProp_def optChain_def optProp_def elemAt_def

lemmas string_defs =
  isDigit_def isUpper_def isLower_def isAlnum_def isSpace_def isPunct_def isApos_def isQuote_def
  lowerUnit_def toLowerCase_def trim_def normalizeWord_def matchWord_def

section \<open>Properties of the strings and of the tokenizer\<close>

lemma dropWhile_none: "\<forall>x\<in>set s. \<not> P x \<Longrightarrow> dropWhile P s = s"
  by (cases s) auto

lemma set_trim: "set (trim s) \<subseteq> set s"
proof -
  have "set (trim s) = set (dropWhile isSpace (rev (dropWhile isSpace s)))"
    by (simp add: trim_def)
  also have "\<dots> \<subseteq> set (rev (dropWhile isSpace s))"
    by (auto dest: set_dropWhileD)
  also have "\<dots> \<subseteq> set s"
    by (auto dest: set_dropWhileD)
  finally show ?thesis .
qed

lemma trim_no_space: "\<forall>x\<in>set s. \<not> isSpace x \<Longrightarrow> trim s = s"
  by (simp add: trim_def dropWhile_none)

lemma alnum_not_space: "isAlnum c \<Longrightarrow> \<not> isSpace c"
  by (auto simp: isAlnum_def isSpace_def isUpper_def isLower_def isDigit_def)

lemma lowerUnit_not_upper: "x \<in> set (lowerUnit c) \<Longrightarrow> \<not> isUpper x"
  by (auto simp: lowerUnit_def isUpper_def split: if_splits)

lemma toLowerCase_not_upper: "x \<in> set (toLowerCase s) \<Longrightarrow> \<not> isUpper x"
  by (auto simp: toLowerCase_def dest: lowerUnit_not_upper)

lemma normalizeWord_units:
  assumes "x \<in> set (normalizeWord s)"
  shows "isLower x \<or> isDigit x"
proof -
  from assms set_trim have "x \<in> set (filter isAlnum (filter (\<lambda>c. \<not> isQuote c) (toLowerCase s)))"
    unfolding normalizeWord_def by blast
  then have "isAlnum x" and "x \<in> set (toLowerCase s)" by auto
  then show ?thesis
    using toLowerCase_not_upper by (auto simp: isAlnum_def)
qed

lemma lowerUnit_fixed: "isLower c \<or> isDigit c \<Longrightarrow> lowerUnit c = [c]"
  by (auto simp: lowerUnit_def isLower_def isDigit_def isUpper_def)

lemma toLowerCase_fixed: "\<forall>x\<in>set s. isLower x \<or> isDigit x \<Longrightarrow> toLowerCase s = s"
  by (induction s) (simp_all add: toLowerCase_def lowerUnit_fixed)

lemma lower_digit_not_quote: "isLower c \<or> isDigit c \<Longrightarrow> \<not> isQuote c"
  by (auto simp: isLower_def isDigit_def isQuote_def)

lemma normalizeWord_fixed:
  assumes "\<forall>x\<in>set s. isLower x \<or> isDigit x"
  shows "normalizeWord s = s"
proof -
  have 1: "toLowerCase s = s" using assms by (rule toLowerCase_fixed)
  have 2: "filter (\<lambda>c. \<not> isQuote c) s = s"
    using assms lower_digit_not_quote by (auto simp: filter_id_conv)
  have 3: "filter isAlnum s = s"
    using assms by (auto simp: filter_id_conv isAlnum_def)
  have 4: "trim s = s"
  proof (rule trim_no_space, rule ballI)
    fix x assume "x \<in> set s"
    with assms have "isAlnum x" by (auto simp: isAlnum_def)
    then show "\<not> isSpace x" by (rule alnum_not_space)
  qed
  show ?thesis by (simp add: normalizeWord_def 1 2 3 4)
qed

text \<open>
  C10: \<open>normalizeWord\<close> is idempotent: normalizing a normalized word changes nothing,
  for every string.
\<close>

theorem normalizeWord_idempotent: "normalizeWord (normalizeWord s) = normalizeWord s"
  by (rule normalizeWord_fixed) (simp add: normalizeWord_units)

lemma matchWord_append: "fst (matchWord s) @ snd (matchWord s) = s"
proof -
  have "takeWhile isAlnum s @ dropWhile isAlnum s = s" by simp
  moreover have "takeWhile isAlnum r @ dropWhile isAlnum r = r" for r by simp
  ultimately show ?thesis
    by (auto simp: matchWord_def Let_def split: list.split) (metis append_eq_append_conv_if takeWhile_dropWhile_id)+
qed

lemma tokenLoop_reconstruct: "concat (map tokenText (tokenLoop s wds wi)) = s"
proof (induction s wds wi rule: tokenLoop.induct)
  case (1 wds wi)
  show ?case by simp
next
  case (2 c cs wds wi)
  show ?case
  proof (cases "isSpace c")
    case True
    with 2 show ?thesis by (simp del: takeWhile.simps dropWhile.simps)
  next
    case False
    note ns = False
    show ?thesis
    proof (cases "isAlnum c")
      case True
      with 2 ns show ?thesis by (simp add: matchWord_append)
    next
      case False
      with 2 ns show ?thesis by (simp del: takeWhile.simps dropWhile.simps)
    qed
  qed
qed

text \<open>
  C8: for every input string (and whatever word displays are attached), the texts of the
  tokens of \<open>tokenizeAndAttach\<close>, concatenated in order, are the input string.
\<close>

theorem tokenize_reconstruct:
  "concat (map tokenText (tokenizeAndAttach txt wordDisplays)) = txt"
  by (simp add: tokenizeAndAttach_def tokenLoop_reconstruct)

section \<open>Properties of the Score Extractor\<close>

lemma optChain_optProp: "optChain v k = Inr (optProp v k)"
  by (simp add: optChain_def optProp_def getProp_def)

lemma optPath_foldl: "optPath v p = Inr (foldl optProp v p)"
  by (induction p arbitrary: v) (simp_all add: optChain_optProp)

lemma firstCandidate_filter:
  "firstCandidate v ps =
     Inr (case filter (\<lambda>c. \<not> nullish c) (map (foldl optProp v) ps) of
            [] \<Rightarrow> JNull | c # cs \<Rightarrow> c)"
  by (induction ps) (simp_all add: optPath_foldl)

text \<open>
  C5 (as amended): for every raw response, \<open>getWordScoreList\<close> reads its four paths in
  order and takes the first value that is neither \<open>null\<close> nor \<open>undefined\<close>; it returns
  that value when it is a list and the empty list otherwise (no path holds a value, or the
  first value is not a list). It throws for no response.
\<close>

theorem getWordScoreList_first_candidate:
  "getWordScoreList speechace =
     Inr (case filter (\<lambda>c. \<not> nullish c) (map (foldl optProp speechace) wordScorePaths) of
            [] \<Rightarrow> []
          | c # cs \<Rightarrow> (case c of JArr xs \<Rightarrow> xs | _ \<Rightarrow> []))"
  by (simp add: getWordScoreList_def firstCandidate_filter split: list.split)

text \<open>
  C5 as stated fails: a response whose second path holds a string and whose fourth path
  holds a list gives the empty list, not the list.
\<close>

theorem getWordScoreList_later_list_counterexample:
  "getWordScoreList
     (JObj [(ascii ''text_score'', JObj [(ascii ''word_score_list'', JStr (ascii ''none''))]),
            (ascii ''word_score_list'', JArr [JObj [(ascii ''word'', JStr (ascii ''the''))]])])
     = Inr []
   \<and> optPath
     (JObj [(ascii ''text_score'', JObj [(ascii ''word_score_list'', JStr (ascii ''none''))]),
            (ascii ''word_score_list'', JArr [JObj [(ascii ''word'', JStr (ascii ''the''))]])])
     [ascii ''word_score_list'']
     = Inr (JArr [JObj [(ascii ''word'', JStr (ascii ''the''))]])"
  by (simp add: getWordScoreList_def wordScorePaths_def value_defs)

section \<open>Properties of the Timing Resolver\<close>

lemma toNumberSec_spec:
  "toNumberSec rt v = map_option (\<lambda>x. Fin (specSeconds x)) (specBound rt v)"
  by (cases v; simp add: toNumberSec_def specBound_def specSeconds_def nullish_def Let_def
      split: jsnum.split)

text \<open>
  C6 (as amended): for an item that is neither \<open>null\<close> nor \<open>undefined\<close>, each bound
  (\<open>start_time ?? start\<close>, \<open>end_time ?? end\<close>) that is a finite number, or a string that
  converts to one, is divided by 1000 when it is greater than 1000 and kept otherwise, and
  the result is then clamped below at 0; there is no interval when either bound is
  missing or not finite.
\<close>

theorem timingFromItem_units_clamped:
  "\<not> nullish item \<Longrightarrow>
   timingFromItem rt item =
     Inr (case (specBound rt (coalesce (propOf item (ascii ''start_time'')) (propOf item (ascii ''start''))),
                specBound rt (coalesce (propOf item (ascii ''end_time'')) (propOf item (ascii ''end'')))) of
            (Some s, Some e) \<Rightarrow>
              Some \<lparr>startSec = Fin (max 0 (specSeconds s)), endSec = Fin (max 0 (specSeconds e))\<rparr>
          | _ \<Rightarrow> None)"
  by (simp add: timingFromItem_def toNumberSec_spec Let_def split: option.split)

text \<open>The example of the specification: 1500 and 2300 are taken for milliseconds.\<close>

theorem timingFromItem_units_clamped_witness:
  "\<not> nullish (JObj [(ascii ''start'', JNum (Fin 1500)), (ascii ''end'', JNum (Fin 2300))])
   \<and> timingFromItem exampleRuntime
        (JObj [(ascii ''start'', JNum (Fin 1500)), (ascii ''end'', JNum (Fin 2300))])
      = Inr (Some \<lparr>startSec = Fin 1.5, endSec = Fin 2.3\<rparr>)"
  using timingFromItem_units_clamped
    [of "JObj [(ascii ''start'', JNum (Fin 1500)), (ascii ''end'', JNum (Fin 2300))]" exampleRuntime]
  by (simp add: value_defs specBound_def specSeconds_def)

text \<open>
  C6 as stated fails: the bound \<open>start = -1\<close> is not greater than 1000 and is not kept:
  the interval starts at 0.
\<close>

theorem timingFromItem_negative_counterexample:
  "timingFromItem exampleRuntime
     (JObj [(ascii ''start'', JNum (Fin (- 1))), (ascii ''end'', JNum (Fin 2))])
   = Inr (Some \<lparr>startSec = Fin 0, endSec = Fin 2\<rparr>)
   \<and> Fin 0 \<noteq> Fin (- 1)"
  by (simp add: timingFromItem_def toNumberSec_def value_defs)

lemma jmax_absorb: "jle y x \<Longrightarrow> jmax x y = x"
  by (cases x; cases y) (auto simp: jle_def)

lemma timingFromPhoneExtents_formula:
  assumes "ps \<noteq> []"
    and "optProp (hd ps) (ascii ''extent'') = JArr s"
    and "optProp (last ps) (ascii ''extent'') = JArr e"
    and "elemAt s 0 = JNum x" and "elemAt e 1 = JNum y"
  shows "timingFromPhoneExtents (JArr ps) =
     Some \<lparr>startSec = jmax (Fin 0) (jmul x (Fin 0.01)),
           endSec = jmax (jadd (jmax (Fin 0) (jmul x (Fin 0.01))) (Fin 0.02)) (jmul y (Fin 0.01))\<rparr>"
proof -
  have "ps ! 0 = hd ps" "ps ! (length ps - 1) = last ps"
    using assms(1) by (simp_all add: hd_conv_nth last_conv_nth)
  then show ?thesis
    using assms by (simp add: timingFromPhoneExtents_def Let_def)
qed

text \<open>
  C3: for a record whose phone list is not empty and whose first and last phones carry
  an \<open>extent\<close> array with a number at index 0 (first phone) and at index 1 (last phone),
  the timing is \<open>startSec = max(0, first * 0.01)\<close> and
  \<open>endSec = max(startSec + 0.02, last * 0.01)\<close>; when \<open>last * 0.01\<close> is at most
  \<open>startSec + 0.02\<close> then \<open>endSec\<close> is \<open>startSec + 0.02\<close>; and the extents \<open>[0,50]\<close>,
  \<open>[50,120]\<close> give 0 and 1.2.
\<close>

theorem phone_extent_timing:
  assumes "phonesRawOf picked = ps" and "ps \<noteq> []"
    and "optProp (hd ps) (ascii ''extent'') = JArr s"
    and "optProp (last ps) (ascii ''extent'') = JArr e"
    and "elemAt s 0 = JNum x" and "elemAt e 1 = JNum y"
  shows "timingOf rt picked =
      Inr (Some \<lparr>startSec = jmax (Fin 0) (jmul x (Fin 0.01)),
                 endSec = jmax (jadd (jmax (Fin 0) (jmul x (Fin 0.01))) (Fin 0.02))
                               (jmul y (Fin 0.01))\<rparr>)
    \<and> (jle (jmul y (Fin 0.01)) (jadd (jmax (Fin 0) (jmul x (Fin 0.01))) (Fin 0.02)) \<longrightarrow>
        timingOf rt picked =
          Inr (Some \<lparr>startSec = jmax (Fin 0) (jmul x (Fin 0.01)),
                     endSec = jadd (jmax (Fin 0) (jmul x (Fin 0.01))) (Fin 0.02)\<rparr>))
    \<and> timingOf rt
        (JObj [(ascii ''phone_score_list'',
                JArr [JObj [(ascii ''extent'', JArr [JNum (Fin 0), JNum (Fin 50)])],
                      JObj [(ascii ''extent'', JArr [JNum (Fin 50), JNum (Fin 120)])]])])
      = Inr (Some \<lparr>startSec = Fin 0, endSec = Fin 1.2\<rparr>)"
proof (intro conjI impI)
  show 1: "timingOf rt picked =
      Inr (Some \<lparr>startSec = jmax (Fin 0) (jmul x (Fin 0.01)),
                 endSec = jmax (jadd (jmax (Fin 0) (jmul x (Fin 0.01))) (Fin 0.02))
                               (jmul y (Fin 0.01))\<rparr>)"
    using timingFromPhoneExtents_formula [OF assms(2-6)] assms(1)
    by (simp add: timingOf_def)
  assume "jle (jmul y (Fin 0.01)) (jadd (jmax (Fin 0) (jmul x (Fin 0.01))) (Fin 0.02))"
  then show "timingOf rt picked =
          Inr (Some \<lparr>startSec = jmax (Fin 0) (jmul x (Fin 0.01)),
                     endSec = jadd (jmax (Fin 0) (jmul x (Fin 0.01))) (Fin 0.02)\<rparr>)"
    using 1 by (simp add: jmax_absorb)
next
  show "timingOf rt
        (JObj [(ascii ''phone_score_list'',
                JArr [JObj [(ascii ''extent'', JArr [JNum (Fin 0), JNum (Fin 50)])],
                      JObj [(ascii ''extent'', JArr [JNum (Fin 50), JNum (Fin 120)])]])])
      = Inr (Some \<lparr>startSec = Fin 0, endSec = Fin 1.2\<rparr>)"
    by (simp add: timingOf_def phonesRawOf_def timingFromPhoneExtents_def value_defs)
qed

text \<open>A phone of one tick, from 0 to 1: the width of the interval is the floor of 20 ms.\<close>

theorem phone_extent_timing_witness:
  "phonesRawOf
     (JObj [(ascii ''phone_score_list'',
             JArr [JObj [(ascii ''extent'', JArr [JNum (Fin 0), JNum (Fin 1)])]])])
     = [JObj [(ascii ''extent'', JArr [JNum (Fin 0), JNum (Fin 1)])]]
   \<and> jle (jmul (Fin 1) (Fin 0.01)) (jadd (jmax (Fin 0) (jmul (Fin 0) (Fin 0.01))) (Fin 0.02))
   \<and> timingOf exampleRuntime
     (JObj [(ascii ''phone_score_list'',
             JArr [JObj [(ascii ''extent'', JArr [JNum (Fin 0), JNum (Fin 1)])]])])
     = Inr (Some \<lparr>startSec = Fin 0, endSec = Fin 0.02\<rparr>)"
  using phone_extent_timing
    [of "JObj [(ascii ''phone_score_list'',
             JArr [JObj [(ascii ''extent'', JArr [JNum (Fin 0), JNum (Fin 1)])]])]"
        "[JObj [(ascii ''extent'', JArr [JNum (Fin 0), JNum (Fin 1)])]]"
        "[JNum (Fin 0), JNum (Fin 1)]" "[JNum (Fin 0), JNum (Fin 1)]" "Fin 0" "Fin 1"
        exampleRuntime]
  by (simp add: phonesRawOf_def value_defs jle_def)

text \<open>
  C7: the item-level path returns an interval that does not satisfy
  \<open>startSec < endSec\<close>: a record without phones whose \<open>start\<close> and \<open>end\<close> are both 2
  resolves to the interval from 2 to 2. The phone-extent path floors the width at
  20 ms; \<open>timingFromItem\<close> only clamps each bound at 0.
\<close>

theorem timing_item_not_ordered:
  "timingOf rt (JObj [(ascii ''start'', JNum (Fin 2)), (ascii ''end'', JNum (Fin 2))])
     = Inr (Some \<lparr>startSec = Fin 2, endSec = Fin 2\<rparr>)
   \<and> \<not> jless (Fin 2) (Fin 2)"
  by (simp add: timingOf_def phonesRawOf_def timingFromPhoneExtents_def timingFromItem_def
      toNumberSec_def value_defs)

text \<open>
  What does hold on the two paths: the phone-extent path on finite extents gives an
  interval with \<open>0 \<le> startSec < endSec\<close>; the item-level path gives bounds that are not
  negative.
\<close>

lemma timingFromPhoneExtents_ordered:
  assumes "timingFromPhoneExtents (JArr ps) = Some t"
    and "ps \<noteq> []"
    and "optProp (hd ps) (ascii ''extent'') = JArr s"
    and "optProp (last ps) (ascii ''extent'') = JArr e"
    and "elemAt s 0 = JNum (Fin x)" and "elemAt e 1 = JNum (Fin y)"
  shows "jless (startSec t) (endSec t) \<and> jle (Fin 0) (startSec t) \<and> jle (Fin 0) (endSec t)"
  using timingFromPhoneExtents_formula [OF assms(2-6)] assms(1)
  by (auto simp: jle_def max_def)

lemma timingFromItem_nonnegative:
  "timingFromItem rt item = Inr (Some t) \<Longrightarrow> jle (Fin 0) (startSec t) \<and> jle (Fin 0) (endSec t)"
  by (auto simp: timingFromItem_def toNumberSec_spec Let_def jle_def max_def
      split: if_splits option.splits)

section \<open>Properties of the Word-Score Aligner\<close>




lemma scanWindow_in_set: "scanWindow list nrm ks = Inr (Some k) \<Longrightarrow> k \<in> set ks"
  by (induction ks) (auto split: sum.splits if_splits)





lemma pick_cursor: "pick list j raw = Inr (picked, j') \<Longrightarrow> j < j'"
  by (auto simp: pick_def Let_def split: sum.splits option.splits if_splits
      dest!: scanWindow_in_set)

lemma iteration_cursor: "iteration rt list i j raw = Inr (w, j') \<Longrightarrow> j < j'"
  by (auto simp: iteration_def split: sum.splits prod.splits dest: pick_cursor)







lemmas align_defs =
  buildWordDisplays_def getWordScoreList_def wordScorePaths_def iteration_def pick_def
  candidateWord_def timingOf_def timingFromItem_def toNumberSec_def timingFromPhoneExtents_def
  phonesRawOf_def qualityOf_def wordPhoneOf_def tokenizeAndAttach_def attachAt_def
  exampleRuntime_def

lemma alignLoop_length:
  "alignLoop rt list ws i j = Inr (out, c) \<Longrightarrow> length out = length ws"
proof (induction ws arbitrary: i j out c)
  case Nil
  then show ?case by simp
next
  case (Cons raw ws)
  from Cons.prems obtain w j' where it: "iteration rt list i j raw = Inr (w, j')"
    by (cases "iteration rt list i j raw") auto
  with Cons.prems obtain rest where rest: "alignLoop rt list ws (i + 1) j' = Inr (rest, c)"
    and out: "out = w # rest"
    by (cases "alignLoop rt list ws (i + 1) j'") auto
  from Cons.IH [OF rest] out show ?case by simp
qed








lemma space_not_alnum: "isSpace c \<Longrightarrow> \<not> isAlnum c"
  using alnum_not_space by blast

lemma wordsInText_skip:
  "\<forall>x\<in>set xs. \<not> isAlnum x \<Longrightarrow> wordsInText (xs @ ys) = wordsInText ys"
  by (induction xs) simp_all

lemma wordsInText_dropWhile:
  assumes "\<And>x. P x \<Longrightarrow> \<not> isAlnum x"
  shows "wordsInText (dropWhile P s) = wordsInText s"
proof -
  have "wordsInText (takeWhile P s @ dropWhile P s) = wordsInText (dropWhile P s)"
    by (rule wordsInText_skip) (auto dest: set_takeWhileD assms)
  then show ?thesis by simp
qed

lemma word_tokens_are_words:
  "map tokenText (filter isWordToken (tokenLoop s wds wi)) = wordsInText s"
proof (induction s wds wi rule: tokenLoop.induct)
  case (1 wds wi)
  show ?case by simp
next
  case (2 c cs wds wi)
  show ?case
  proof (cases "isSpace c")
    case True
    then have "\<not> isAlnum c" by (rule space_not_alnum)
    moreover have "wordsInText (dropWhile isSpace cs) = wordsInText cs"
      by (rule wordsInText_dropWhile) (rule space_not_alnum)
    ultimately show ?thesis using True 2(1) by simp
  next
    case False
    note ns = False
    show ?thesis
    proof (cases "isAlnum c")
      case True
      with ns 2(2) show ?thesis by simp
    next
      case False
      have "wordsInText (dropWhile isPunct cs) = wordsInText cs"
        by (rule wordsInText_dropWhile) (simp add: isPunct_def)
      with False ns 2(3) show ?thesis by (simp add: isPunct_def)
    qed
  qed
qed

lemma trim_empty_all_space: "trim s = [] \<Longrightarrow> \<forall>x\<in>set s. isSpace x"
proof -
  assume t: "trim s = []"
  have "dropWhile isSpace s = []"
  proof (rule ccontr)
    assume ne: "dropWhile isSpace s \<noteq> []"
    then have "\<not> isSpace (hd (dropWhile isSpace s))"
      by (rule hd_dropWhile)
    moreover from t have "dropWhile isSpace (rev (dropWhile isSpace s)) = []"
      by (simp add: trim_def)
    then have "\<forall>x\<in>set (rev (dropWhile isSpace s)). isSpace x"
      by (simp add: dropWhile_eq_Nil_conv)
    ultimately show False using ne by (metis hd_in_set set_rev)
  qed
  then show ?thesis by (simp add: dropWhile_eq_Nil_conv)
qed

lemma blank_no_words: "trim s = [] \<Longrightarrow> wordsInText s = []"
proof -
  assume "trim s = []"
  then have "\<forall>x\<in>set s. \<not> isAlnum x"
    using trim_empty_all_space space_not_alnum by blast
  then have "wordsInText (s @ []) = wordsInText []" by (rule wordsInText_skip)
  then show ?thesis by simp
qed

lemma word_token_count:
  "length (filter isWordToken (tokenizeAndAttach txt wds)) = length (wordsInText txt)"
proof -
  have "length (map tokenText (filter isWordToken (tokenLoop txt wds 0))) = length (wordsInText txt)"
    by (simp only: word_tokens_are_words)
  then show ?thesis by (cases "txt = []") (simp_all add: tokenizeAndAttach_def)
qed

text \<open>
  What the passes that return give: with an empty score list, by the guard at the head of
  \<open>buildWordDisplays\<close>, no word display at all; with a score list that is not empty, one
  word display per word token of the tokenized text.
\<close>

lemma buildWordDisplays_one_per_word:
  assumes "getWordScoreList speechace = Inr list"
    and "buildWordDisplays rt usedText speechace = Inr out"
  shows "length out =
     (if list = [] then 0
      else length (filter isWordToken (tokenizeAndAttach usedText out)))"
proof (cases "trim usedText = [] \<or> list = []")
  case True
  with assms have "out = []" by (simp add: buildWordDisplays_def)
  moreover have "trim usedText = [] \<Longrightarrow> wordsInText usedText = []"
    by (rule blank_no_words)
  ultimately show ?thesis using True by (auto simp: word_token_count)
next
  case False
  with assms obtain c where "alignLoop rt list (wordsInText usedText) 0 0 = Inr (out, c)"
    by (auto simp: buildWordDisplays_def split: sum.splits prod.splits)
  then have "length out = length (wordsInText usedText)" by (rule alignLoop_length)
  with False show ?thesis by (simp add: word_token_count)
qed

text \<open>
  With no score list the text \<open>cat\<close> has one word token and no word display.
\<close>

lemma buildWordDisplays_empty_list:
  "buildWordDisplays exampleRuntime (ascii ''cat'') (JObj []) = Inr []
   \<and> length (filter isWordToken (tokenizeAndAttach (ascii ''cat'') [])) = 1"
  by (simp add: align_defs value_defs string_defs)

text \<open>
  Where the score list is exhausted the iteration throws: no position is left to look
  at, \<open>picked\<close> is \<open>list[j] || null\<close>, that is \<open>null\<close>, the phones give no timing, and
  \<open>timingFromItem(picked)\<close> reads \<open>item.start_time\<close> of \<open>null\<close>.
\<close>

lemma iteration_exhausted:
  assumes "length list \<le> j"
  shows "iteration rt list i j raw = Inl TypeError"
proof -
  have "[j..<min (length list) (j + 4)] = []" using assms by simp
  then have "pick list j raw = Inr (JNull, j + 1)"
    using assms by (simp add: pick_def Let_def orElse_def elemAt_def)
  moreover have "timingOf rt JNull = Inl TypeError"
    by (simp add: timingOf_def phonesRawOf_def optProp_def nullish_def
        timingFromPhoneExtents_def timingFromItem_def)
  ultimately show ?thesis by (simp add: iteration_def)
qed

lemma Inl_TypeError: "r = Inl e \<Longrightarrow> r = Inl TypeError"
  by (cases e) simp

text \<open>
  The cursor moves on by at least one position per word, so a pass over more words than
  the list has records left throws, at the exhausted word if not before.
\<close>

lemma alignLoop_short_list_throws:
  "ws \<noteq> [] \<Longrightarrow> length list < j + length ws \<Longrightarrow> alignLoop rt list ws i j = Inl TypeError"
proof (induction ws arbitrary: i j)
  case Nil
  then show ?case by simp
next
  case (Cons raw ws)
  show ?case
  proof (cases "iteration rt list i j raw")
    case (Inl e)
    then have "alignLoop rt list (raw # ws) i j = Inl e" by simp
    then show ?thesis by (rule Inl_TypeError)
  next
    case (Inr r)
    obtain w j' where r: "r = (w, j')" by (cases r)
    have lt: "j < j'" using Inr r by (auto dest: iteration_cursor)
    have "ws \<noteq> []"
    proof
      assume "ws = []"
      with Cons.prems have "length list \<le> j" by simp
      then have "iteration rt list i j raw = Inl TypeError" by (rule iteration_exhausted)
      with Inr show False by simp
    qed
    moreover have "length list < j' + length ws" using Cons.prems lt by simp
    ultimately have "alignLoop rt list ws (i + 1) j' = Inl TypeError" by (rule Cons.IH)
    with Inr r show ?thesis by simp
  qed
qed

lemma buildWordDisplays_short_list_throws:
  assumes "getWordScoreList speechace = Inr list"
    and "list \<noteq> []"
    and "length list < length (wordsInText usedText)"
  shows "buildWordDisplays rt usedText speechace = Inl TypeError"
proof -
  from assms(3) have ne: "wordsInText usedText \<noteq> []" by auto
  then have "trim usedText \<noteq> []" using blank_no_words by blast
  moreover have "alignLoop rt list (wordsInText usedText) 0 0 = Inl TypeError"
    using ne assms(3) by (intro alignLoop_short_list_throws) simp_all
  ultimately show ?thesis using assms(1,2) by (simp add: buildWordDisplays_def)
qed

text \<open>
  C1: the pass does not give one word display per word token for every score list, and
  a word token for which the score list is exhausted gets no word display with
  \<open>quality = null\<close> and \<open>timing = null\<close>: on the text \<open>The cat\<close>, which has two word
  tokens, and the score list of the one record \<open>the\<close>, \<open>buildWordDisplays\<close> throws a
  TypeError at the second word and returns nothing.
\<close>

theorem buildWordDisplays_exhausted_throws:
  "getWordScoreList
     (JObj [(ascii ''word_score_list'', JArr [JObj [(ascii ''word'', JStr (ascii ''the''))]])])
     = Inr [JObj [(ascii ''word'', JStr (ascii ''the''))]]
   \<and> length (filter isWordToken (tokenizeAndAttach (ascii ''The cat'') [])) = 2
   \<and> buildWordDisplays exampleRuntime (ascii ''The cat'')
        (JObj [(ascii ''word_score_list'', JArr [JObj [(ascii ''word'', JStr (ascii ''the''))]])])
      = Inl TypeError"
  by (simp add: align_defs value_defs string_defs)

text \<open>
  A pass does return when the records are objects typed as declared and the list is long
  enough for the cursor, which moves by at most four positions per word, to stay inside
  it.
\<close>

lemma timingOf_returns: "\<not> nullish picked \<Longrightarrow> \<exists>t. timingOf rt picked = Inr t"
  by (simp add: timingOf_def timingFromItem_def Let_def split: option.split)

lemma scanWindow_returns:
  "\<forall>k\<in>set ks. candidateWord (list ! k) \<noteq> Inl TypeError \<Longrightarrow>
   \<exists>found. scanWindow list nrm ks = Inr found"
proof (induction ks)
  case Nil
  show ?case by simp
next
  case (Cons k ks)
  from Cons.prems obtain c where "candidateWord (list ! k) = Inr c"
    by (cases "candidateWord (list ! k)") (auto, metis error.exhaust)
  with Cons show ?case by auto
qed

lemma pick_returns:
  assumes ok: "\<forall>item\<in>set list. truthy item \<and> candidateWord item \<noteq> Inl TypeError"
    and j: "j < length list"
  shows "\<exists>picked j'. pick list j raw = Inr (picked, j') \<and> picked \<in> set list \<and> j' \<le> j + 4"
proof -
  let ?W = "[j..<min (length list) (j + 4)]"
  have "\<forall>k\<in>set ?W. candidateWord (list ! k) \<noteq> Inl TypeError"
    using ok by simp
  then obtain found where f: "scanWindow list (normalizeWord raw) ?W = Inr found"
    using scanWindow_returns by blast
  show ?thesis
  proof (cases found)
    case None
    with f j ok show ?thesis
      by (simp add: pick_def Let_def orElse_def elemAt_def)
  next
    case (Some k)
    with f have "k \<in> set ?W" by (auto dest: scanWindow_in_set)
    then have k: "j \<le> k" "k < length list" "k < j + 4" by auto
    then have "truthy (list ! k)" using ok by simp
    with f Some k show ?thesis by (simp add: pick_def Let_def)
  qed
qed

lemma truthy_not_nullish: "truthy v \<Longrightarrow> \<not> nullish v"
  by (auto simp: nullish_def)

lemma alignLoop_returns:
  assumes ok: "\<forall>item\<in>set list. truthy item \<and> candidateWord item \<noteq> Inl TypeError"
  shows "j + 4 * length ws \<le> length list + 3 \<Longrightarrow>
    \<exists>out c. alignLoop rt list ws i j = Inr (out, c)"
proof (induction ws arbitrary: i j)
  case Nil
  show ?case by simp
next
  case (Cons raw ws)
  then have "j < length list" by simp
  with ok obtain picked j' where p: "pick list j raw = Inr (picked, j')"
    and m: "picked \<in> set list" and b: "j' \<le> j + 4"
    using pick_returns by blast
  from m ok have "\<not> nullish picked" by (auto dest: truthy_not_nullish)
  then obtain t where t: "timingOf rt picked = Inr t"
    using timingOf_returns by blast
  from p t obtain w where it: "iteration rt list i j raw = Inr (w, j')"
    by (simp add: iteration_def)
  from b Cons.prems have "j' + 4 * length ws \<le> length list + 3" by simp
  then obtain out c where "alignLoop rt list ws (i + 1) j' = Inr (out, c)"
    using Cons.IH by blast
  with it show ?case by simp
qed

text \<open>Two records for the two words of \<open>The cat.\<close>\<close>

lemma buildWordDisplays_one_per_word_example:
  "getWordScoreList
     (JObj [(ascii ''word_score_list'',
             JArr [JObj [(ascii ''word'', JStr (ascii ''the'')), (ascii ''quality_score'', JNum (Fin 90))],
                   JObj [(ascii ''word'', JStr (ascii ''cat'')), (ascii ''quality_score'', JNum (Fin 40))]])])
     = Inr [JObj [(ascii ''word'', JStr (ascii ''the'')), (ascii ''quality_score'', JNum (Fin 90))],
            JObj [(ascii ''word'', JStr (ascii ''cat'')), (ascii ''quality_score'', JNum (Fin 40))]]
   \<and> buildWordDisplays exampleRuntime (ascii ''The cat.'')
     (JObj [(ascii ''word_score_list'',
             JArr [JObj [(ascii ''word'', JStr (ascii ''the'')), (ascii ''quality_score'', JNum (Fin 90))],
                   JObj [(ascii ''word'', JStr (ascii ''cat'')), (ascii ''quality_score'', JNum (Fin 40))]])])
     = Inr [\<lparr>idx = 0, word = ascii ''The'', quality = Some (Fin 90), phones = [], timing = None\<rparr>,
            \<lparr>idx = 1, word = ascii ''cat'', quality = Some (Fin 40), phones = [], timing = None\<rparr>]
   \<and> length (filter isWordToken (tokenizeAndAttach (ascii ''The cat.'')
        [\<lparr>idx = 0, word = ascii ''The'', quality = Some (Fin 90), phones = [], timing = None\<rparr>,
         \<lparr>idx = 1, word = ascii ''cat'', quality = Some (Fin 40), phones = [], timing = None\<rparr>])) = 2"
proof -
  let ?sp = "JObj [(ascii ''word_score_list'',
             JArr [JObj [(ascii ''word'', JStr (ascii ''the'')), (ascii ''quality_score'', JNum (Fin 90))],
                   JObj [(ascii ''word'', JStr (ascii ''cat'')), (ascii ''quality_score'', JNum (Fin 40))]])]"
  let ?out = "[\<lparr>idx = 0, word = ascii ''The'', quality = Some (Fin 90), phones = [], timing = None\<rparr>,
            \<lparr>idx = 1, word = ascii ''cat'', quality = Some (Fin 40), phones = [], timing = None\<rparr>]"
  have 1: "getWordScoreList ?sp
     = Inr [JObj [(ascii ''word'', JStr (ascii ''the'')), (ascii ''quality_score'', JNum (Fin 90))],
            JObj [(ascii ''word'', JStr (ascii ''cat'')), (ascii ''quality_score'', JNum (Fin 40))]]"
    by (simp add: getWordScoreList_def wordScorePaths_def value_defs)
  have 2: "buildWordDisplays exampleRuntime (ascii ''The cat.'') ?sp = Inr ?out"
    by (simp add: align_defs value_defs string_defs)
  from buildWordDisplays_one_per_word [OF 1 2] 1 2 show ?thesis by simp
qed

section \<open>Properties of the Playback Scheduler\<close>

lemma stopSegmentTimer_fields [simp]:
  "segment (stopSegmentTimer s) = segment s"
  "playToken (stopSegmentTimer s) = playToken s"
  "calls (stopSegmentTimer s) = calls s"
  "hasAudio (stopSegmentTimer s) = hasAudio s"
  "err (stopSegmentTimer s) = err s"
  by (simp_all add: stopSegmentTimer_def split: option.split)


lemma doSeekPlay_token [simp]: "playToken (doSeekPlay token a b s) = playToken s"
  by (simp add: doSeekPlay_def Let_def)


lemma afterUrl_token [simp]: "playToken (afterUrl token a b s) = playToken s"
  by (simp add: afterUrl_def)



lemma applyUrl_fields [simp]:
  "segment (applyUrl outcome s) = segment s"
  "playToken (applyUrl outcome s) = playToken s"
  "err (applyUrl outcome s) = err s"
  "hasAudio (applyUrl outcome s) = hasAudio s"
  by (simp_all add: applyUrl_def)



lemma resumeUrl_token [simp]: "playToken (resumeUrl token outcome s) = playToken s"
  by (simp add: resumeUrl_def Let_def split: option.split prod.split)


lemma resumeMetadata_token [simp]: "playToken (resumeMetadata token s) = playToken s"
  by (simp add: resumeMetadata_def split: option.split prod.split)


lemma timerCallback_token [simp]: "playToken (timerCallback token s) = playToken s"
  by (simp add: timerCallback_def split: option.split prod.split)


lemma fireTimer_token [simp]: "playToken (fireTimer tid s) = playToken s"
  by (simp add: fireTimer_def split: option.split prod.split)


lemma onTime_token [simp]: "playToken (onTime cur s) = playToken s"
  by (simp add: onTime_def split: option.split prod.split)


lemma resetRunState_token [simp]: "playToken (resetRunState s) = playToken s"
  by (simp add: resetRunState_def stopTts_def Let_def)


lemma toggleTts_token [simp]: "playToken (toggleTts s) = playToken s"
  by (simp add: toggleTts_def stopTts_def Let_def)











lemma timersCurrent_quiet:
  assumes "timers s = Map.empty"
    and "\<forall>w\<in>set (waiting s). fst w \<le> playToken s"
    and "distinct (map fst (waiting s))"
  shows "timersCurrent s"
  using assms by (simp add: timersCurrent_def)

lemma stopSegmentTimer_quiet:
  assumes "timersCurrent s"
  shows "timers (stopSegmentTimer s) = Map.empty"
proof (rule ext)
  fix tid
  show "timers (stopSegmentTimer s) tid = None"
  proof (cases "timers s tid")
    case None
    then show ?thesis by (simp add: stopSegmentTimer_def split: option.split)
  next
    case (Some p)
    obtain tok ms where "p = (tok, ms)" by (cases p)
    with Some assms have "segmentTimer s = Some tid" by (simp add: timersCurrent_def)
    then show ?thesis by (simp add: stopSegmentTimer_def)
  qed
qed

lemma stopSegmentTimer_waiting [simp]: "waiting (stopSegmentTimer s) = waiting s"
  by (simp add: stopSegmentTimer_def split: option.split)

lemma stopSegmentTimer_timersCurrent:
  "timersCurrent s \<Longrightarrow> timersCurrent (stopSegmentTimer s)"
  by (rule timersCurrent_quiet) (simp_all add: stopSegmentTimer_quiet, simp_all add: timersCurrent_def)

lemma doSeekPlay_timersCurrent:
  assumes "timersCurrent s"
    and "token = playToken s \<Longrightarrow> timers s = Map.empty \<and> (\<forall>w\<in>set (waiting s). fst w \<noteq> token)"
  shows "timersCurrent (doSeekPlay token a b s)"
proof (cases "token = playToken s")
  case False
  with assms(1) show ?thesis by (simp add: doSeekPlay_def)
next
  case True
  with assms(2) have q: "timers s = Map.empty" and w: "\<forall>w\<in>set (waiting s). fst w \<noteq> playToken s"
    by simp_all
  from assms(1) have b: "\<forall>w\<in>set (waiting s). fst w \<le> playToken s"
    and d: "distinct (map fst (waiting s))"
    by (simp_all add: timersCurrent_def)
  show ?thesis
    using True q w b d by (simp add: doSeekPlay_def Let_def timersCurrent_def)
qed

lemma afterUrl_timersCurrent:
  assumes "timersCurrent s"
    and "token \<le> playToken s"
    and "token \<notin> fst ` set (waiting s)"
    and "token = playToken s \<Longrightarrow> timers s = Map.empty"
  shows "timersCurrent (afterUrl token a b s)"
proof (cases "readyState s < 1")
  case True
  let ?s = "s\<lparr>calls := calls s @ [Load],
               waiting := waiting s @ [(token, a, b, AwaitMetadata)]\<rparr>"
  from assms(1) have b: "\<forall>w\<in>set (waiting s). fst w \<le> playToken s"
    and d: "distinct (map fst (waiting s))"
    and t: "\<forall>tid tok ms. timers s tid = Some (tok, ms) \<longrightarrow>
          segmentTimer s = Some tid \<and> tok = playToken s"
    and e: "timers s \<noteq> Map.empty \<longrightarrow> (\<forall>w\<in>set (waiting s). fst w \<noteq> playToken s)"
    by (simp_all add: timersCurrent_def)
  have 1: "\<forall>tid tok ms. timers ?s tid = Some (tok, ms) \<longrightarrow>
          segmentTimer ?s = Some tid \<and> tok = playToken ?s"
    using t by simp
  have 2: "\<forall>w\<in>set (waiting ?s). fst w \<le> playToken ?s"
    using b assms(2) by simp
  have 3: "distinct (map fst (waiting ?s))"
    using d assms(3) by simp
  have 4: "timers ?s \<noteq> Map.empty \<longrightarrow> (\<forall>w\<in>set (waiting ?s). fst w \<noteq> playToken ?s)"
  proof
    assume ne: "timers ?s \<noteq> Map.empty"
    then have "token \<noteq> playToken s" using assms(4) by auto
    moreover from ne e have "\<forall>w\<in>set (waiting s). fst w \<noteq> playToken s" by simp
    ultimately show "\<forall>w\<in>set (waiting ?s). fst w \<noteq> playToken ?s" by simp
  qed
  have "timersCurrent ?s"
    unfolding timersCurrent_def using 1 2 3 4 by blast
  with True show ?thesis by (simp add: afterUrl_def)
next
  case False
  have "timersCurrent (doSeekPlay token a b s)"
  proof (rule doSeekPlay_timersCurrent [OF assms(1)])
    assume eq: "token = playToken s"
    then have "timers s = Map.empty" by (rule assms(4))
    moreover have "\<forall>w\<in>set (waiting s). fst w \<noteq> token"
      using assms(3) by (auto simp: image_iff)
    ultimately show "timers s = Map.empty \<and> (\<forall>w\<in>set (waiting s). fst w \<noteq> token)" ..
  qed
  with False show ?thesis by (simp add: afterUrl_def)
qed

lemma playSegment_timersCurrent:
  assumes "timersCurrent s"
  shows "timersCurrent (playSegment a b s)"
proof (cases "hasAudio s")
  case False
  with assms show ?thesis by (simp add: playSegment_def)
next
  case True
  let ?s3 = "(stopSegmentTimer s)\<lparr>segment := None,
      playToken := playToken (stopSegmentTimer s) + 1,
      calls := calls (stopSegmentTimer s) @ [Pause]\<rparr>"
  from assms have b: "\<forall>w\<in>set (waiting s). fst w \<le> playToken s"
    and d: "distinct (map fst (waiting s))"
    by (simp_all add: timersCurrent_def)
  have q: "timers ?s3 = Map.empty" using assms by (simp add: stopSegmentTimer_quiet)
  have lt: "\<forall>w\<in>set (waiting ?s3). fst w < playToken s + 1"
    using b by (auto simp: less_Suc_eq_le)
  have c3: "timersCurrent ?s3"
    using q b d by (intro timersCurrent_quiet) auto
  have fresh: "playToken s + 1 \<notin> fst ` set (waiting ?s3)"
    using lt by auto
  have 1: "timersCurrent (afterUrl (playToken s + 1) a b ?s3)"
    using c3 fresh q by (intro afterUrl_timersCurrent) simp_all
  have 2: "timersCurrent (?s3\<lparr>waiting := waiting ?s3 @ [(playToken s + 1, a, b, AwaitUrl)]\<rparr>)"
    using q b d fresh by (intro timersCurrent_quiet) auto
  show ?thesis using True 1 2 by (simp add: playSegment_def Let_def)
qed

lemma distinct_map_remove1: "distinct (map f xs) \<Longrightarrow> distinct (map f (remove1 x xs))"
proof (induction xs)
  case Nil
  then show ?case by simp
next
  case (Cons y ys)
  have "set (remove1 x ys) \<subseteq> set ys" by (rule set_remove1_subset)
  with Cons show ?case by auto
qed

lemma remove1_timersCurrent:
  assumes "timersCurrent s"
  shows "timersCurrent (s\<lparr>waiting := remove1 w (waiting s)\<rparr>)"
proof -
  let ?s = "s\<lparr>waiting := remove1 w (waiting s)\<rparr>"
  have sub: "set (remove1 w (waiting s)) \<subseteq> set (waiting s)" by (rule set_remove1_subset)
  from assms have b: "\<forall>w\<in>set (waiting s). fst w \<le> playToken s"
    and d: "distinct (map fst (waiting s))"
    and t: "\<forall>tid tok ms. timers s tid = Some (tok, ms) \<longrightarrow>
          segmentTimer s = Some tid \<and> tok = playToken s"
    and e: "timers s \<noteq> Map.empty \<longrightarrow> (\<forall>w\<in>set (waiting s). fst w \<noteq> playToken s)"
    by (simp_all add: timersCurrent_def)
  have 1: "\<forall>tid tok ms. timers ?s tid = Some (tok, ms) \<longrightarrow>
          segmentTimer ?s = Some tid \<and> tok = playToken ?s"
    using t by simp
  have 2: "\<forall>w\<in>set (waiting ?s). fst w \<le> playToken ?s"
    using b sub by auto
  have 3: "distinct (map fst (waiting ?s))"
    using d by (simp add: distinct_map_remove1)
  have 4: "timers ?s \<noteq> Map.empty \<longrightarrow> (\<forall>w\<in>set (waiting ?s). fst w \<noteq> playToken ?s)"
    using e sub by auto
  show ?thesis
    unfolding timersCurrent_def using 1 2 3 4 by blast
qed

lemma removed_token_fresh:
  assumes "distinct (map fst ws)" and "w \<in> set ws"
  shows "fst w \<notin> fst ` set (remove1 w ws)"
  using assms
proof (induction ws)
  case Nil
  then show ?case by simp
next
  case (Cons x ws)
  then show ?case by (auto simp: image_iff)
qed

lemma find_Some_mem: "find P xs = Some x \<Longrightarrow> x \<in> set xs \<and> P x"
  by (induction xs) (auto split: if_splits)

lemma applyUrl_timersCurrent: "timersCurrent (applyUrl outcome s) = timersCurrent s"
  by (simp add: applyUrl_def timersCurrent_def)

lemma applyUrl_more [simp]:
  "timers (applyUrl outcome s) = timers s"
  "waiting (applyUrl outcome s) = waiting s"
  by (simp_all add: applyUrl_def)

lemma resume_preconditions:
  assumes "timersCurrent s" and "w \<in> set (waiting s)"
  shows "fst w \<le> playToken s"
    and "fst w \<notin> fst ` set (remove1 w (waiting s))"
    and "fst w = playToken s \<Longrightarrow> timers s = Map.empty"
  using assms by (auto simp: timersCurrent_def dest: removed_token_fresh)

lemma resumeUrl_timersCurrent:
  assumes "timersCurrent s"
  shows "timersCurrent (resumeUrl token outcome s)"
proof (cases "find (\<lambda>(t, a, b, st). t = token \<and> st = AwaitUrl) (waiting s)")
  case None
  with assms show ?thesis by (simp add: resumeUrl_def)
next
  case (Some w)
  obtain t a b st where w: "w = (t, a, b, st)" by (cases w)
  from Some w have mem: "(t, a, b, st) \<in> set (waiting s)" and tok: "t = token"
    by (auto dest: find_Some_mem)
  define s1 where "s1 = applyUrl outcome (s\<lparr>waiting := remove1 (t, a, b, st) (waiting s)\<rparr>)"
  have r: "resumeUrl token outcome s = (if outcome = NoUrl then s1 else afterUrl token a b s1)"
    unfolding resumeUrl_def Some w s1_def by (simp add: Let_def)
  have c1: "timersCurrent s1"
    unfolding s1_def using assms by (simp add: applyUrl_timersCurrent remove1_timersCurrent)
  have p: "playToken s1 = playToken s" "timers s1 = timers s"
    "waiting s1 = remove1 (t, a, b, st) (waiting s)"
    unfolding s1_def by simp_all
  note pre = resume_preconditions [OF assms mem]
  have "timersCurrent (afterUrl token a b s1)"
  proof (rule afterUrl_timersCurrent [OF c1])
    show "token \<le> playToken s1" using pre(1) tok p by simp
    show "token \<notin> fst ` set (waiting s1)" using pre(2) tok p by simp
    show "timers s1 = Map.empty" if "token = playToken s1"
      using pre(3) tok p that by simp
  qed
  with c1 r show ?thesis by simp
qed

lemma resumeMetadata_timersCurrent:
  assumes "timersCurrent s"
  shows "timersCurrent (resumeMetadata token s)"
proof (cases "find (\<lambda>(t, a, b, st). t = token \<and> st = AwaitMetadata) (waiting s)")
  case None
  with assms show ?thesis by (simp add: resumeMetadata_def)
next
  case (Some w)
  obtain t a b st where w: "w = (t, a, b, st)" by (cases w)
  from Some w have mem: "(t, a, b, st) \<in> set (waiting s)" and tok: "t = token"
    by (auto dest: find_Some_mem)
  define s1 where "s1 = s\<lparr>waiting := remove1 (t, a, b, st) (waiting s)\<rparr>"
  have r: "resumeMetadata token s = doSeekPlay token a b s1"
    unfolding resumeMetadata_def Some w s1_def by simp
  have c1: "timersCurrent s1"
    unfolding s1_def using assms by (rule remove1_timersCurrent)
  have p: "playToken s1 = playToken s" "timers s1 = timers s"
    "waiting s1 = remove1 (t, a, b, st) (waiting s)"
    unfolding s1_def by simp_all
  note pre = resume_preconditions [OF assms mem]
  have "timersCurrent (doSeekPlay token a b s1)"
  proof (rule doSeekPlay_timersCurrent [OF c1])
    assume eq: "token = playToken s1"
    have "timers s1 = Map.empty" using pre(3) tok p eq by simp
    moreover have "\<forall>w\<in>set (waiting s1). fst w \<noteq> token"
      using pre(2) tok p by (auto simp: image_iff)
    ultimately show "timers s1 = Map.empty \<and> (\<forall>w\<in>set (waiting s1). fst w \<noteq> token)" ..
  qed
  with r show ?thesis by simp
qed

lemma timerCallback_timersCurrent:
  "timers s = Map.empty \<Longrightarrow> timersCurrent s \<Longrightarrow> timersCurrent (timerCallback token s)"
  by (auto simp: timerCallback_def timersCurrent_def split: option.split)

lemma fireTimer_timersCurrent:
  assumes "timersCurrent s"
  shows "timersCurrent (fireTimer tid s)"
proof (cases "timers s tid")
  case None
  with assms show ?thesis by (simp add: fireTimer_def)
next
  case (Some p)
  obtain tok ms where p: "p = (tok, ms)" by (cases p)
  let ?s1 = "s\<lparr>timers := (timers s)(tid := None)\<rparr>"
  have q: "timers ?s1 = Map.empty"
  proof (rule ext)
    fix x
    show "timers ?s1 x = None"
    proof (cases "timers s x")
      case None
      then show ?thesis by simp
    next
      case (Some r)
      obtain tok' ms' where "r = (tok', ms')" by (cases r)
      with Some assms have "segmentTimer s = Some x" by (simp add: timersCurrent_def)
      moreover from \<open>timers s tid = Some p\<close> p assms have "segmentTimer s = Some tid"
        by (simp add: timersCurrent_def)
      ultimately show ?thesis by simp
    qed
  qed
  have "timersCurrent ?s1"
    using q assms by (intro timersCurrent_quiet) (simp_all add: timersCurrent_def)
  with q have "timersCurrent (timerCallback tok ?s1)" by (intro timerCallback_timersCurrent)
  with Some p show ?thesis by (simp add: fireTimer_def)
qed

lemma fields_timersCurrent:
  "timersCurrent (s\<lparr>calls := c\<rparr>) = timersCurrent s"
  "timersCurrent (s\<lparr>segment := g\<rparr>) = timersCurrent s"
  "timersCurrent (s\<lparr>err := e\<rparr>) = timersCurrent s"
  "timersCurrent (s\<lparr>ttsSpeaking := t\<rparr>) = timersCurrent s"
  "timersCurrent (s\<lparr>hasAudio := h\<rparr>) = timersCurrent s"
  "timersCurrent (s\<lparr>audioSrc := h\<rparr>) = timersCurrent s"
  "timersCurrent (s\<lparr>readyState := r\<rparr>) = timersCurrent s"
  by (simp_all add: timersCurrent_def)

lemma onTime_timersCurrent: "timersCurrent s \<Longrightarrow> timersCurrent (onTime cur s)"
  by (auto simp: onTime_def fields_timersCurrent split: option.split
      intro!: stopSegmentTimer_timersCurrent)

lemma resetRunState_timersCurrent: "timersCurrent s \<Longrightarrow> timersCurrent (resetRunState s)"
  by (simp add: resetRunState_def stopTts_def Let_def fields_timersCurrent
      stopSegmentTimer_timersCurrent)

lemma toggleTts_timersCurrent: "timersCurrent s \<Longrightarrow> timersCurrent (toggleTts s)"
  by (simp add: toggleTts_def stopTts_def Let_def fields_timersCurrent
      stopSegmentTimer_timersCurrent)

lemma playWord_timersCurrent: "timersCurrent s \<Longrightarrow> timersCurrent (playWord outcome w s)"
  by (simp add: playWord_def stopTts_def Let_def fields_timersCurrent applyUrl_timersCurrent
      stopSegmentTimer_timersCurrent playSegment_timersCurrent split: option.split)

lemma step_timersCurrent: "timersCurrent s \<Longrightarrow> timersCurrent (step ev s)"
  by (cases ev)
    (simp_all add: playSegment_timersCurrent resumeUrl_timersCurrent resumeMetadata_timersCurrent
      fireTimer_timersCurrent onTime_timersCurrent resetRunState_timersCurrent
      toggleTts_timersCurrent playWord_timersCurrent fields_timersCurrent)

lemma run_timersCurrent: "timersCurrent s \<Longrightarrow> timersCurrent (run evs s)"
  by (induction evs rule: rev_induct) (simp_all add: run_def step_timersCurrent)

lemma init_timersCurrent: "timersCurrent init"
  by (simp add: timersCurrent_def init_def)

lemma pending_timer_is_current:
  assumes "timers (run evs init) tid = Some (tok, ms)"
  shows "tok = playToken (run evs init) \<and> segmentTimer (run evs init) = Some tid"
  using run_timersCurrent [OF init_timersCurrent, of evs] assms
  unfolding timersCurrent_def by blast


text \<open>
  C9 (as amended): when playback is requested for a word display whose timing is
  \<open>null\<close>, no seek and no play reaches the audio element; the "no timing" signal is
  raised when \<open>ensureFreshAudioUrl()\<close> gave a URL, and when it gave none \<open>playWord\<close>
  returns before the test of the timing and raises nothing.
\<close>

theorem playWord_without_timing:
  assumes "timing w = None"
  shows "filter isSeekOrPlay (calls (playWord outcome w s)) = filter isSeekOrPlay (calls s)
    \<and> err (playWord outcome w s) = (if outcome = NoUrl then err s else Some noTimingMessage)"
  using assms by (simp add: playWord_def Let_def applyUrl_def stopTts_def)

text \<open>A word display without timing, with the audio element mounted and a cached URL.\<close>

theorem playWord_without_timing_witness:
  "timing \<lparr>idx = 0, word = ascii ''cat'', quality = None, phones = [], timing = None\<rparr> = None
   \<and> calls (playWord CachedUrl
        \<lparr>idx = 0, word = ascii ''cat'', quality = None, phones = [], timing = None\<rparr>
        (step (AudioChanged True True 1) init)) = []
   \<and> err (playWord CachedUrl
        \<lparr>idx = 0, word = ascii ''cat'', quality = None, phones = [], timing = None\<rparr>
        (step (AudioChanged True True 1) init)) = Some noTimingMessage"
  using playWord_without_timing
    [of "\<lparr>idx = 0, word = ascii ''cat'', quality = None, phones = [], timing = None\<rparr>"
        CachedUrl "step (AudioChanged True True 1) init"]
  by (simp add: init_def playWord_def applyUrl_def stopTts_def stopSegmentTimer_def)

text \<open>
  C9 as stated fails: without a URL, \<open>playWord\<close> on a word display without timing
  leaves \<open>err\<close> as it was.
\<close>

theorem playWord_no_url_counterexample:
  "timing \<lparr>idx = 0, word = ascii ''cat'', quality = None, phones = [], timing = None\<rparr> = None
   \<and> err (playWord NoUrl
        \<lparr>idx = 0, word = ascii ''cat'', quality = None, phones = [], timing = None\<rparr>
        (step (AudioChanged True True 1) init)) = None"
  by (simp add: init_def playWord_def applyUrl_def)


end
